theory Spec2Isabelle
  imports Main
begin

section \<open>tabstijl: a shallow embedding of src/main.cpp\<close>

text \<open>
  The program reads standard input one character at a time, splits it into rows of
  tokens, computes one width per column and prints the rows as an aligned table with
  optional borders and ANSI styling. Characters are bytes (\<open>char\<close>), a C++
  \<open>std::string\<close> is a \<open>string\<close>, a \<open>vector\<close> is a list and
  \<open>size_t\<close> values (lengths, widths, indices) are natural numbers: a length is
  below \<open>2^63\<close> and the padding below \<open>2^31\<close>, so no \<open>size_t\<close>
  sum of the program wraps. The two \<open>int\<close> counters of \<open>get_tab_border\<close>
  are 32-bit and their wrap-around is written out. An indexed access out of range is the
  error value \<open>OutOfRange\<close>.
\<close>

subsection \<open>Constants\<close>

definition ESC :: char where
  "ESC = CHR 0x1B"

definition DEFAULT :: string where
  "DEFAULT = ESC # ''[0m''"

definition BOLD :: string where
  "BOLD = ESC # ''[1m''"

definition RED :: string where
  "RED = ESC # ''[31m''"

definition NEWLINE :: char where
  "NEWLINE = CHR 0x0A"

definition SPACE :: char where
  "SPACE = CHR 0x20"

definition TAB :: char where
  "TAB = CHR 0x09"

definition VOID :: char where
  "VOID = CHR 0x00"

definition ALIGN_LEFT :: string where
  "ALIGN_LEFT = ''left''"

definition ALIGN_CENTER :: string where
  "ALIGN_CENTER = ''center''"

definition ALIGN_RIGHT :: string where
  "ALIGN_RIGHT = ''right''"

subsection \<open>Errors\<close>

datatype error = OutOfRange

definition ebind :: "error + 'a \<Rightarrow> ('a \<Rightarrow> error + 'b) \<Rightarrow> error + 'b" where
  "ebind m f = (case m of Inl e \<Rightarrow> Inl e | Inr x \<Rightarrow> f x)"

subsection \<open>align_text\<close>

definition align_text :: "string \<Rightarrow> nat \<Rightarrow> string \<Rightarrow> nat \<times> string" where
  "align_text string_to_align tab_col_width text_alignment =
     (let string_length = length string_to_align in
      if text_alignment = ALIGN_RIGHT then
        (let col_padding =
               (if tab_col_width > string_length then tab_col_width - string_length else 0)
         in (tab_col_width, replicate col_padding SPACE @ string_to_align))
      else if text_alignment = ALIGN_CENTER then
        (let col_total_padding =
               (if tab_col_width > string_length then tab_col_width - string_length else 0);
             col_left_padding = col_total_padding div 2;
             col_right_padding = col_total_padding - col_left_padding
         in (tab_col_width,
             replicate col_left_padding SPACE @ string_to_align
               @ replicate col_right_padding SPACE))
      else
        (tab_col_width,
         string_to_align
           @ replicate (if tab_col_width > string_length
                        then tab_col_width - string_length else 0) SPACE))"

subsection \<open>Border styles and configuration\<close>

text \<open>
  The source declares three structs of the same four fields (\<open>border_top\<close>,
  \<open>border_separator\<close>, \<open>border_bottom\<close>); one record stands for the three.
  The configuration is the set of local variables of \<open>main\<close> that the option
  parser fills in before the input is read.
\<close>

record border_chars =
  left_char_unicode :: string
  mid_char_unicode :: string
  right_char_unicode :: string
  fill_char_unicode :: string

record tab_border =
  border_top :: border_chars
  border_separator :: border_chars
  border_bottom :: border_chars
  vertical_line :: string

record config =
  headerless :: bool
  exclude_first_line :: bool
  use_border :: bool
  use_separator :: bool
  table_color :: string
  header_text_color :: string
  body_text_color :: string
  header_bg_color :: string
  body_bg_color :: string
  header_text_style :: string
  body_text_style :: string
  header_text_align :: string
  body_text_align :: string
  usrinput_header_data :: "string list"
  col_separator :: char
  tab_border_style :: tab_border
  col_padding :: nat

text \<open>A box-drawing character \<open>U+25xx\<close> in UTF-8: \<open>E2\<close>, \<open>94 + xx div 64\<close>, \<open>80 + xx mod 64\<close>.\<close>

definition single_border_style :: tab_border where
  "single_border_style =
     \<lparr>border_top = \<lparr>left_char_unicode = [CHR 0xE2, CHR 0x94, CHR 0x8C],
                     mid_char_unicode = [CHR 0xE2, CHR 0x94, CHR 0xAC],
                     right_char_unicode = [CHR 0xE2, CHR 0x94, CHR 0x90],
                     fill_char_unicode = [CHR 0xE2, CHR 0x94, CHR 0x80]\<rparr>,
      border_separator = \<lparr>left_char_unicode = [CHR 0xE2, CHR 0x94, CHR 0x9C],
                     mid_char_unicode = [CHR 0xE2, CHR 0x94, CHR 0xBC],
                     right_char_unicode = [CHR 0xE2, CHR 0x94, CHR 0xA4],
                     fill_char_unicode = [CHR 0xE2, CHR 0x94, CHR 0x80]\<rparr>,
      border_bottom = \<lparr>left_char_unicode = [CHR 0xE2, CHR 0x94, CHR 0x94],
                     mid_char_unicode = [CHR 0xE2, CHR 0x94, CHR 0xB4],
                     right_char_unicode = [CHR 0xE2, CHR 0x94, CHR 0x98],
                     fill_char_unicode = [CHR 0xE2, CHR 0x94, CHR 0x80]\<rparr>,
      vertical_line = [CHR 0xE2, CHR 0x94, CHR 0x82]\<rparr>"

text \<open>The values of the variables when no option is given.\<close>

definition default_config :: config where
  "default_config =
     \<lparr>headerless = False, exclude_first_line = False, use_border = True,
      use_separator = True, table_color = [], header_text_color = [],
      body_text_color = [], header_bg_color = [], body_bg_color = [],
      header_text_style = [], body_text_style = [],
      header_text_align = ALIGN_LEFT, body_text_align = ALIGN_LEFT,
      usrinput_header_data = [], col_separator = SPACE,
      tab_border_style = single_border_style, col_padding = 2\<rparr>"

subsection \<open>get_tab_border\<close>

text \<open>
  \<open>to_int\<close> is the conversion to a 32-bit \<open>int\<close>: the counters
  \<open>temp_col_width\<close> and \<open>max_col_width\<close> are \<open>int\<close>, the widths are
  \<open>size_t\<close>, and each \<open>+=\<close> and \<open>-=\<close> computes in \<open>size_t\<close> and
  converts back, which is arithmetic modulo \<open>2^32\<close>. The line is built as a list
  of glyphs (one string per \<open>result_oss << glyph\<close>), so that glyphs can be counted;
  \<open>get_tab_border\<close> is the string the source returns. Where a parameter of the
  source has the name of a record field, the model shortens it (\<open>left_char\<close> for
  \<open>left_char_unicode\<close>, \<open>sep\<close> for \<open>col_separator\<close>, \<open>excl\<close>
  for \<open>exclude_first_line\<close>).
\<close>

definition to_int :: "int \<Rightarrow> int" where
  "to_int x = (x + 2 ^ 31) mod 2 ^ 32 - 2 ^ 31"

definition border_cell :: "nat \<Rightarrow> int \<Rightarrow> int \<Rightarrow> string \<Rightarrow> string \<Rightarrow> string list" where
  "border_cell w temp_col_width max_col_width mid_char fill_char =
     concat (map (\<lambda>nd_index.
                fill_char #
                (if nd_index = w - 1 \<and> temp_col_width < to_int (max_col_width - 1)
                 then [mid_char] else []))
             [0..<w])"

definition border_col_step ::
  "nat list \<Rightarrow> int \<Rightarrow> string \<Rightarrow> string \<Rightarrow> nat \<Rightarrow> error + int \<times> string list
     \<Rightarrow> error + int \<times> string list" where
  "border_col_step col_width max_col_width mid_char fill_char st_index st =
     ebind st (\<lambda>(temp_col_width, out).
       if st_index < length col_width then
         (let temp = to_int (temp_col_width + (int (col_width ! st_index) - 1))
          in Inr (temp, out @ border_cell (col_width ! st_index) temp max_col_width
                                 mid_char fill_char))
       else Inl OutOfRange)"

definition get_tab_border_glyphs ::
  "nat \<Rightarrow> nat list \<Rightarrow> string \<Rightarrow> string \<Rightarrow> string \<Rightarrow> string \<Rightarrow> error + string list" where
  "get_tab_border_glyphs max_col_count col_width left_char mid_char right_char fill_char =
     (let max_col_width =
            to_int (fold (\<lambda>w acc. to_int (acc + int w)) col_width 0
                    - (int (length col_width) - 1))
      in ebind (fold (border_col_step col_width max_col_width mid_char fill_char)
                  [0..<max_col_count] (Inr (0, [left_char])))
           (\<lambda>(temp_col_width, out). Inr (out @ [right_char])))"

definition get_tab_border ::
  "nat \<Rightarrow> nat list \<Rightarrow> string \<Rightarrow> string \<Rightarrow> string \<Rightarrow> string \<Rightarrow> string \<Rightarrow> error + string" where
  "get_tab_border max_col_count col_width left_char mid_char right_char fill_char color =
     ebind (get_tab_border_glyphs max_col_count col_width left_char mid_char right_char
              fill_char)
       (\<lambda>glyphs. Inr (color @ concat glyphs @ DEFAULT @ [NEWLINE]))"

definition border_line :: "nat \<Rightarrow> nat list \<Rightarrow> border_chars \<Rightarrow> string \<Rightarrow> error + string" where
  "border_line max_col_count col_width b color =
     get_tab_border max_col_count col_width (left_char_unicode b) (mid_char_unicode b)
       (right_char_unicode b) (fill_char_unicode b) color"

subsection \<open>is_wspace\<close>

text \<open>\<open>isspace\<close> of the C library in the "C" locale, which the program never changes.\<close>

definition isspace :: "char \<Rightarrow> bool" where
  "isspace c = (c \<in> set [SPACE, TAB, NEWLINE, CHR 0x0B, CHR 0x0C, CHR 0x0D])"

definition is_wspace :: "char \<Rightarrow> char \<Rightarrow> bool" where
  "is_wspace current_char sep =
     (if sep \<in> set [NEWLINE, SPACE, TAB]
      then current_char = sep \<or> current_char = NEWLINE
      else isspace current_char)"

subsection \<open>The input loop\<close>

record parse_state =
  cmdout_char_queue :: string
  temp_row_data :: "string list"
  cmdout_tab_data :: "string list list"
  first_line :: bool

definition init_state :: parse_state where
  "init_state = \<lparr>cmdout_char_queue = [], temp_row_data = [], cmdout_tab_data = [],
                  first_line = True\<rparr>"

text \<open>The token is taken out of the queue and kept unless the first line is excluded.\<close>

definition take_token :: "bool \<Rightarrow> parse_state \<Rightarrow> parse_state" where
  "take_token excl s =
     (if cmdout_char_queue s \<noteq> [] then
        (let cmdout_token = cmdout_char_queue s in
         s\<lparr>cmdout_char_queue := [],
           temp_row_data :=
             (if cmdout_token \<noteq> [] \<and> (\<not> first_line s \<or> \<not> excl)
              then temp_row_data s @ [cmdout_token] else temp_row_data s)\<rparr>)
      else s)"

definition end_of_row :: "bool \<Rightarrow> parse_state \<Rightarrow> parse_state" where
  "end_of_row excl s =
     (if first_line s \<and> excl then s\<lparr>first_line := False\<rparr>
      else if temp_row_data s \<noteq> []
        then s\<lparr>cmdout_tab_data := cmdout_tab_data s @ [temp_row_data s],
               temp_row_data := []\<rparr>
        else s)"

text \<open>One turn of the \<open>while ((cmdout_char = getchar()) != EOF)\<close> loop.\<close>

definition read_char :: "char \<Rightarrow> bool \<Rightarrow> char \<Rightarrow> parse_state \<Rightarrow> parse_state" where
  "read_char sep excl cmdout_char s =
     (if is_wspace cmdout_char sep then
        (let s1 = take_token excl s
         in if cmdout_char = NEWLINE then end_of_row excl s1 else s1)
      else s\<lparr>cmdout_char_queue := cmdout_char_queue s @ [cmdout_char]\<rparr>)"

text \<open>After the end of the input: the last token and the last row, with no test of the flags.\<close>

definition flush_eof :: "parse_state \<Rightarrow> parse_state" where
  "flush_eof s =
     (let s1 = s\<lparr>first_line := True\<rparr>;
          s2 = (if cmdout_char_queue s1 \<noteq> [] then
                  (let cmdout_token = cmdout_char_queue s1 in
                   s1\<lparr>cmdout_char_queue := [],
                      temp_row_data :=
                        (if cmdout_token \<noteq> [] then temp_row_data s1 @ [cmdout_token]
                         else temp_row_data s1)\<rparr>)
                else s1)
      in if temp_row_data s2 \<noteq> []
         then s2\<lparr>cmdout_tab_data := cmdout_tab_data s2 @ [temp_row_data s2]\<rparr>
         else s2)"

definition read_input :: "char \<Rightarrow> bool \<Rightarrow> string \<Rightarrow> parse_state" where
  "read_input sep excl inp = flush_eof (fold (read_char sep excl) inp init_state)"

definition collect_rows :: "char \<Rightarrow> bool \<Rightarrow> string \<Rightarrow> string list list" where
  "collect_rows sep excl inp = cmdout_tab_data (read_input sep excl inp)"

subsection \<open>The header list\<close>

text \<open>\<open>cmdout_tab_data[0] = usrinput_header_data\<close>; the source does not test that row 0 exists.\<close>

definition set_header :: "string list \<Rightarrow> bool \<Rightarrow> string list list \<Rightarrow> error + string list list" where
  "set_header hdr excl tab =
     (if hdr \<noteq> [] \<and> \<not> excl then
        (if 0 < length tab then Inr (tab[0 := hdr]) else Inl OutOfRange)
      else Inr tab)"

definition build_table :: "config \<Rightarrow> string \<Rightarrow> error + string list list" where
  "build_table cfg inp =
     set_header (usrinput_header_data cfg) (exclude_first_line cfg)
       (collect_rows (col_separator cfg) (exclude_first_line cfg) inp)"

subsection \<open>Column count and column widths\<close>

definition max_col_count :: "string list list \<Rightarrow> nat" where
  "max_col_count tab = fold (\<lambda>tab_row m. max m (length tab_row)) tab 0"

definition width_cell_step :: "string list \<Rightarrow> nat \<Rightarrow> error + nat list \<Rightarrow> error + nat list" where
  "width_cell_step tab_row index st =
     ebind st (\<lambda>w.
       if index < length w \<and> index < length tab_row
       then Inr (w[index := max (w ! index) (length (tab_row ! index))])
       else Inl OutOfRange)"

definition width_row_step :: "string list \<Rightarrow> error + nat list \<Rightarrow> error + nat list" where
  "width_row_step tab_row st = fold (width_cell_step tab_row) [0..<length tab_row] st"

definition compute_col_width :: "string list list \<Rightarrow> nat \<Rightarrow> error + nat list" where
  "compute_col_width tab padding =
     ebind (fold width_row_step tab (Inr (replicate (max_col_count tab) 0)))
       (\<lambda>w. Inr (map (\<lambda>col_width. col_width + padding) w))"

subsection \<open>Rendering\<close>

text \<open>\<open>setw(n) << left << s\<close>: the stream fills with spaces on the right up to \<open>n\<close>.\<close>

definition setw_left :: "nat \<Rightarrow> string \<Rightarrow> string" where
  "setw_left n s = s @ replicate (n - length s) SPACE"

text \<open>A \<open>for\<close> loop that writes one string per turn and stops at the first error.\<close>

fun emit_all :: "('a \<Rightarrow> error + string) \<Rightarrow> 'a list \<Rightarrow> error + string" where
  "emit_all f [] = Inr []"
| "emit_all f (x # xs) = ebind (f x) (\<lambda>a. ebind (emit_all f xs) (\<lambda>b. Inr (a @ b)))"

definition render_cell :: "config \<Rightarrow> bool \<Rightarrow> nat list \<Rightarrow> string list \<Rightarrow> nat \<Rightarrow> error + string" where
  "render_cell cfg first tab_col_width tab_row index =
     (if index < length tab_col_width then
        (let tab_cell = (if index < length tab_row then tab_row ! index else []);
             tab_col_data =
               align_text tab_cell (tab_col_width ! index)
                 (if first \<and> \<not> headerless cfg then header_text_align cfg
                  else if \<not> first \<or> headerless cfg then body_text_align cfg
                  else ALIGN_LEFT)
         in Inr ((if first \<and> \<not> headerless cfg
                  then header_text_style cfg @ header_bg_color cfg @ header_text_color cfg
                  else [])
                 @ (if \<not> first \<or> headerless cfg
                    then body_text_style cfg @ body_bg_color cfg @ body_text_color cfg
                    else [])
                 @ setw_left (fst tab_col_data) (snd tab_col_data) @ DEFAULT
                 @ table_color cfg
                 @ (if use_border cfg then vertical_line (tab_border_style cfg) else [])))
      else Inl OutOfRange)"

fun render_rows ::
  "config \<Rightarrow> nat \<Rightarrow> nat list \<Rightarrow> bool \<Rightarrow> string list list \<Rightarrow> error + string" where
  "render_rows cfg mcc w first [] = Inr []"
| "render_rows cfg mcc w first (tab_row # rest) =
     ebind (if first \<and> use_border cfg
            then border_line mcc w (border_top (tab_border_style cfg)) (table_color cfg)
            else Inr []) (\<lambda>top_out.
     ebind (emit_all (render_cell cfg first w tab_row) [0..<mcc]) (\<lambda>cells.
     ebind (if first \<and> \<not> headerless cfg \<and> use_border cfg \<and> use_separator cfg
            then border_line mcc w (border_separator (tab_border_style cfg))
                   (table_color cfg)
            else Inr []) (\<lambda>sep_out.
     ebind (render_rows cfg mcc w False rest) (\<lambda>more.
       Inr (top_out
            @ (if use_border cfg
               then table_color cfg @ vertical_line (tab_border_style cfg) @ DEFAULT
               else [])
            @ cells @ [NEWLINE] @ sep_out @ more)))))"

definition render_table :: "config \<Rightarrow> string list list \<Rightarrow> error + string" where
  "render_table cfg tab =
     (let mcc = max_col_count tab in
      ebind (compute_col_width tab (col_padding cfg)) (\<lambda>w.
      ebind (render_rows cfg mcc w True tab) (\<lambda>rows_out.
      ebind (if use_border cfg
             then border_line mcc w (border_bottom (tab_border_style cfg)) (table_color cfg)
             else Inr []) (\<lambda>bottom_out.
        Inr (rows_out @ bottom_out)))))"

text \<open>The part of \<open>main\<close> after the options: read, set the header, measure, print.\<close>

definition tabstijl_main :: "config \<Rightarrow> string \<Rightarrow> error + string" where
  "tabstijl_main cfg inp = ebind (build_table cfg inp) (render_table cfg)"

subsection \<open>Notions used to state the round trip\<close>

text \<open>
  These definitions are not code of the program: they say what the round-trip
  property means by "stripped of styling", "rendered without styling" and a table that
  a tokenizer can have produced. \<open>strip_styling\<close> removes every escape sequence,
  from \<open>ESC\<close> up to and including the next \<open>m\<close>; a table is
  \<open>escape_free\<close> when no cell holds an \<open>ESC\<close> that the stripping would
  take for the start of a sequence.
\<close>

fun strip_sgr :: "bool \<Rightarrow> string \<Rightarrow> string" where
  "strip_sgr in_escape [] = []"
| "strip_sgr False (c # cs) =
     (if c = ESC then strip_sgr True cs else c # strip_sgr False cs)"
| "strip_sgr True (c # cs) =
     (if c = CHR ''m'' then strip_sgr False cs else strip_sgr True cs)"

definition strip_styling :: "string \<Rightarrow> string" where
  "strip_styling s = strip_sgr False s"

definition unstyled :: "config \<Rightarrow> bool" where
  "unstyled cfg =
     (table_color cfg = [] \<and> header_text_style cfg = [] \<and> header_bg_color cfg = [] \<and>
      header_text_color cfg = [] \<and> body_text_style cfg = [] \<and> body_bg_color cfg = [] \<and>
      body_text_color cfg = [])"

definition tokenized :: "char \<Rightarrow> string list list \<Rightarrow> bool" where
  "tokenized sep tab =
     (\<forall>tab_row\<in>set tab. tab_row \<noteq> [] \<and>
        (\<forall>cell\<in>set tab_row. cell \<noteq> [] \<and> (\<forall>c\<in>set cell. \<not> is_wspace c sep)))"

definition escape_free :: "string list list \<Rightarrow> bool" where
  "escape_free tab = (\<forall>tab_row\<in>set tab. \<forall>cell\<in>set tab_row. ESC \<notin> set cell)"

text \<open>The table read back from the rendering of a table, and the invariant of the input loop.\<close>

definition retokenize :: "config \<Rightarrow> char \<Rightarrow> string list list \<Rightarrow> error + string list list" where
  "retokenize cfg sep tab =
     ebind (render_table cfg tab)
       (\<lambda>out. Inr (collect_rows sep False (strip_styling out)))"

definition row_inv :: "char \<Rightarrow> parse_state \<Rightarrow> bool" where
  "row_inv sep s =
     ((\<forall>c\<in>set (cmdout_char_queue s). \<not> is_wspace c sep \<and> c \<noteq> ESC) \<and>
      (\<forall>cell\<in>set (temp_row_data s). cell \<noteq> [] \<and>
          (\<forall>c\<in>set cell. \<not> is_wspace c sep \<and> c \<noteq> ESC)) \<and>
      tokenized sep (cmdout_tab_data s) \<and> escape_free (cmdout_tab_data s))"

abbreviation (input) pstate :: "string \<Rightarrow> string list \<Rightarrow> string list list \<Rightarrow> bool \<Rightarrow> parse_state" where
  "pstate q t T f \<equiv>
     \<lparr>cmdout_char_queue = q, temp_row_data = t, cmdout_tab_data = T, first_line = f\<rparr>"

section \<open>Properties\<close>

subsection \<open>The cell aligner\<close>

lemma ebind_Inr [simp]: "ebind (Inr x) f = f x"
  by (simp add: ebind_def)

lemma ebind_Inl [simp]: "ebind (Inl e) f = Inl e"
  by (simp add: ebind_def)

lemma align_modes_distinct:
  "ALIGN_LEFT \<noteq> ALIGN_RIGHT" "ALIGN_LEFT \<noteq> ALIGN_CENTER" "ALIGN_CENTER \<noteq> ALIGN_RIGHT"
  by (simp_all add: ALIGN_LEFT_def ALIGN_RIGHT_def ALIGN_CENTER_def)

lemma align_text_fst [simp]: "fst (align_text s w m) = w"
  by (simp add: align_text_def Let_def)

lemma align_text_length: "length (snd (align_text s w m)) = max w (length s)"
  by (simp add: align_text_def Let_def)

lemma align_text_left:
  "snd (align_text s w ALIGN_LEFT) = s @ replicate (w - length s) SPACE"
  by (simp add: align_text_def Let_def align_modes_distinct)

lemma align_text_right:
  "snd (align_text s w ALIGN_RIGHT) = replicate (w - length s) SPACE @ s"
  by (simp add: align_text_def Let_def)

lemma align_text_center:
  "snd (align_text s w ALIGN_CENTER) =
     replicate ((w - length s) div 2) SPACE @ s
       @ replicate ((w - length s) - (w - length s) div 2) SPACE"
  by (simp add: align_text_def Let_def align_modes_distinct)

lemma align_text_unchanged: "w \<le> length s \<Longrightarrow> snd (align_text s w m) = s"
  by (simp add: align_text_def Let_def)

text \<open>
  C6. For every text, width and alignment mode among left, center and right, the aligned
  text has length \<open>max width (length text)\<close>; it is the text itself when the text is
  at least as long as the width; left alignment appends the padding spaces, right
  alignment prepends them, and center alignment puts \<open>(width - length text) div 2\<close>
  spaces in front and the rest behind, the rest being the front padding or one more.
\<close>

theorem align_text_pads:
  "m \<in> {ALIGN_LEFT, ALIGN_CENTER, ALIGN_RIGHT} \<Longrightarrow>
     length (snd (align_text s w m)) = max w (length s) \<and>
     (w \<le> length s \<longrightarrow> snd (align_text s w m) = s) \<and>
     (m = ALIGN_LEFT \<longrightarrow> snd (align_text s w m) = s @ replicate (w - length s) SPACE) \<and>
     (m = ALIGN_RIGHT \<longrightarrow> snd (align_text s w m) = replicate (w - length s) SPACE @ s) \<and>
     (m = ALIGN_CENTER \<longrightarrow>
        snd (align_text s w m) =
          replicate ((w - length s) div 2) SPACE @ s
            @ replicate ((w - length s) - (w - length s) div 2) SPACE \<and>
        (w - length s) div 2 \<le> (w - length s) - (w - length s) div 2 \<and>
        (w - length s) - (w - length s) div 2 \<le> (w - length s) div 2 + 1)"
proof -
  have "(w - length s) div 2 \<le> (w - length s) - (w - length s) div 2"
    and "(w - length s) - (w - length s) div 2 \<le> (w - length s) div 2 + 1"
    by arith+
  then show ?thesis
    using align_text_length [of s w m] align_text_unchanged [of w s m]
      align_text_left [of s w] align_text_right [of s w] align_text_center [of s w]
    by blast
qed

theorem align_text_pads_witness:
  "ALIGN_CENTER \<in> {ALIGN_LEFT, ALIGN_CENTER, ALIGN_RIGHT} \<and>
   snd (align_text ''ab'' 5 ALIGN_CENTER) = replicate 1 SPACE @ ''ab'' @ replicate 2 SPACE \<and>
   length (snd (align_text ''ab'' 5 ALIGN_CENTER)) = 5 \<and>
   snd (align_text ''ab'' 5 ALIGN_LEFT) = ''ab'' @ replicate 3 SPACE \<and>
   snd (align_text ''ab'' 5 ALIGN_RIGHT) = replicate 3 SPACE @ ''ab'' \<and>
   snd (align_text ''abcdef'' 5 ALIGN_CENTER) = ''abcdef''"
  using align_text_pads [of ALIGN_CENTER "''ab''" 5]
    align_text_pads [of ALIGN_LEFT "''ab''" 5]
    align_text_pads [of ALIGN_RIGHT "''ab''" 5]
    align_text_pads [of ALIGN_CENTER "''abcdef''" 5]
  by simp

subsection \<open>Column widths\<close>

lemma width_cells_prefix:
  "k \<le> length row \<Longrightarrow> length row \<le> length w \<Longrightarrow>
   \<exists>w'. fold (width_cell_step row) [0..<k] (Inr w) = Inr w' \<and> length w' = length w \<and>
        (\<forall>i<length w. w' ! i = (if i < k then max (w ! i) (length (row ! i)) else w ! i))"
proof (induction k)
  case 0
  then show ?case by simp
next
  case (Suc k)
  then obtain w1 where w1: "fold (width_cell_step row) [0..<k] (Inr w) = Inr w1"
    "length w1 = length w"
    "\<forall>i<length w. w1 ! i = (if i < k then max (w ! i) (length (row ! i)) else w ! i)"
    by auto
  have k: "k < length w1" "k < length row"
    using Suc.prems w1(2) by simp_all
  have "fold (width_cell_step row) [0..<Suc k] (Inr w) =
          Inr (w1[k := max (w1 ! k) (length (row ! k))])"
    using w1(1) k by (simp add: width_cell_step_def)
  moreover have "\<forall>i<length w. (w1[k := max (w1 ! k) (length (row ! k))]) ! i =
                   (if i < Suc k then max (w ! i) (length (row ! i)) else w ! i)"
    using w1(2,3) k by (auto simp: nth_list_update less_Suc_eq)
  ultimately show ?case
    using w1(2) by simp
qed

lemma width_row_step_Inr:
  assumes "length row \<le> length w"
  shows "\<exists>w'. width_row_step row (Inr w) = Inr w' \<and> length w' = length w \<and>
        (\<forall>i<length w. w' ! i = (if i < length row then max (w ! i) (length (row ! i))
                                  else w ! i))"
  unfolding width_row_step_def using width_cells_prefix [OF le_refl assms] .

lemma width_rows:
  "\<forall>row\<in>set tab. length row \<le> length w \<Longrightarrow>
   \<exists>w'. fold width_row_step tab (Inr w) = Inr w' \<and> length w' = length w \<and>
        (\<forall>i<length w. w ! i \<le> w' ! i \<and>
           (\<forall>row\<in>set tab. i < length row \<longrightarrow> length (row ! i) \<le> w' ! i) \<and>
           (w' ! i = w ! i \<or> (\<exists>row\<in>set tab. i < length row \<and> w' ! i = length (row ! i))))"
proof (induction tab arbitrary: w)
  case Nil
  then show ?case by simp
next
  case (Cons row tab)
  from Cons.prems have "length row \<le> length w" by simp
  from width_row_step_Inr [OF this] obtain w1 where
    w1: "width_row_step row (Inr w) = Inr w1" "length w1 = length w"
      "\<forall>i<length w. w1 ! i = (if i < length row then max (w ! i) (length (row ! i))
                                else w ! i)"
    by blast
  from Cons.prems w1(2) have "\<forall>r\<in>set tab. length r \<le> length w1" by simp
  from Cons.IH [OF this] obtain w' where
    w': "fold width_row_step tab (Inr w1) = Inr w'" "length w' = length w1"
      "\<forall>i<length w1. w1 ! i \<le> w' ! i \<and>
           (\<forall>row\<in>set tab. i < length row \<longrightarrow> length (row ! i) \<le> w' ! i) \<and>
           (w' ! i = w1 ! i \<or> (\<exists>row\<in>set tab. i < length row \<and> w' ! i = length (row ! i)))"
    by blast
  have "fold width_row_step (row # tab) (Inr w) = Inr w'"
    using w1(1) w'(1) by simp
  moreover have "length w' = length w"
    using w1(2) w'(2) by simp
  moreover have "\<forall>i<length w. w ! i \<le> w' ! i \<and>
           (\<forall>r\<in>set (row # tab). i < length r \<longrightarrow> length (r ! i) \<le> w' ! i) \<and>
           (w' ! i = w ! i \<or> (\<exists>r\<in>set (row # tab). i < length r \<and> w' ! i = length (r ! i)))"
  proof (intro allI impI)
    fix i assume i: "i < length w"
    with w1(2) w'(3) have a: "w1 ! i \<le> w' ! i"
      "\<forall>row\<in>set tab. i < length row \<longrightarrow> length (row ! i) \<le> w' ! i"
      "w' ! i = w1 ! i \<or> (\<exists>row\<in>set tab. i < length row \<and> w' ! i = length (row ! i))"
      by auto
    from i w1(3) have b: "w1 ! i = (if i < length row then max (w ! i) (length (row ! i))
                                else w ! i)" by simp
    show "w ! i \<le> w' ! i \<and>
           (\<forall>r\<in>set (row # tab). i < length r \<longrightarrow> length (r ! i) \<le> w' ! i) \<and>
           (w' ! i = w ! i \<or> (\<exists>r\<in>set (row # tab). i < length r \<and> w' ! i = length (r ! i)))"
      using a b by (auto simp: max_def split: if_splits)
  qed
  ultimately show ?case by blast
qed

lemma max_col_count_fold:
  "(\<forall>row\<in>set tab. length row \<le> fold (\<lambda>tab_row m. max m (length tab_row)) tab m) \<and>
   m \<le> fold (\<lambda>tab_row m. max m (length tab_row)) tab m \<and>
   (fold (\<lambda>tab_row m. max m (length tab_row)) tab m = m \<or>
    (\<exists>row\<in>set tab. fold (\<lambda>tab_row m. max m (length tab_row)) tab m = length row))"
proof (induction tab arbitrary: m)
  case Nil
  then show ?case by simp
next
  case (Cons row tab)
  from Cons.IH [of "max m (length row)"] show ?case
    by (auto simp: max_def split: if_splits)
qed

lemma max_col_count_ge: "row \<in> set tab \<Longrightarrow> length row \<le> max_col_count tab"
  using max_col_count_fold [of tab 0] by (simp add: max_col_count_def)

lemma max_col_count_attained:
  "i < max_col_count tab \<Longrightarrow> \<exists>row\<in>set tab. i < length row"
  using max_col_count_fold [of tab 0] by (auto simp: max_col_count_def)

lemma max_col_count_Max: "max_col_count tab = Max (insert 0 (length ` set tab))"
proof (rule sym, rule Max_eqI)
  show "finite (insert 0 (length ` set tab))" by simp
next
  fix y assume "y \<in> insert 0 (length ` set tab)"
  then show "y \<le> max_col_count tab" using max_col_count_ge by auto
next
  show "max_col_count tab \<in> insert 0 (length ` set tab)"
    using max_col_count_fold [of tab 0] by (auto simp: max_col_count_def)
qed

lemma compute_col_width_Inr:
  "\<exists>w. compute_col_width tab pad = Inr w \<and> length w = max_col_count tab \<and>
     (\<forall>i<max_col_count tab.
        w ! i = Max ((\<lambda>row. length (row ! i)) ` {row \<in> set tab. i < length row}) + pad)"
proof -
  have "\<forall>row\<in>set tab. length row \<le> length (replicate (max_col_count tab) (0::nat))"
    using max_col_count_ge by simp
  from width_rows [OF this] obtain w' where
    w': "fold width_row_step tab (Inr (replicate (max_col_count tab) 0)) = Inr w'"
      "length w' = max_col_count tab"
      "\<forall>i<max_col_count tab.
           (\<forall>row\<in>set tab. i < length row \<longrightarrow> length (row ! i) \<le> w' ! i) \<and>
           (w' ! i = 0 \<or> (\<exists>row\<in>set tab. i < length row \<and> w' ! i = length (row ! i)))"
    by auto
  have "\<forall>i<max_col_count tab.
          w' ! i = Max ((\<lambda>row. length (row ! i)) ` {row \<in> set tab. i < length row})"
  proof (intro allI impI)
    fix i assume i: "i < max_col_count tab"
    let ?S = "(\<lambda>row. length (row ! i)) ` {row \<in> set tab. i < length row}"
    from i w'(3) have ub: "\<forall>row\<in>set tab. i < length row \<longrightarrow> length (row ! i) \<le> w' ! i"
      and mem: "w' ! i = 0 \<or> (\<exists>row\<in>set tab. i < length row \<and> w' ! i = length (row ! i))"
      by auto
    from max_col_count_attained [OF i] obtain r where r: "r \<in> set tab" "i < length r"
      by blast
    have "w' ! i \<in> ?S"
    proof (cases "w' ! i = 0")
      case True
      with ub r have "length (r ! i) = w' ! i" by auto
      moreover have "length (r ! i) \<in> ?S" using r by blast
      ultimately show ?thesis by simp
    next
      case False
      with mem show ?thesis by auto
    qed
    moreover have "\<And>y. y \<in> ?S \<Longrightarrow> y \<le> w' ! i" using ub by auto
    ultimately show "w' ! i = Max ?S"
      by (intro Max_eqI [symmetric]) auto
  qed
  then show ?thesis
    using w'(1,2) by (simp add: compute_col_width_def)
qed

text \<open>
  C5. For every table and padding the width computation succeeds; the result has one
  width per column of the longest row; the width of column \<open>i\<close> is the greatest
  length of a cell at index \<open>i\<close>, over the rows that have such a cell, plus the
  padding; and it is the width that the rows having a cell at index \<open>i\<close> give on
  their own, so that a shorter row adds nothing to the columns it lacks.
\<close>

theorem compute_col_width_spec:
  "\<exists>w. compute_col_width tab pad = Inr w \<and>
       length w = Max (insert 0 (length ` set tab)) \<and>
       (\<forall>i<length w.
          w ! i = Max ((\<lambda>row. length (row ! i)) ` {row \<in> set tab. i < length row}) + pad \<and>
          (\<exists>w'. compute_col_width (filter (\<lambda>row. i < length row) tab) pad = Inr w' \<and>
                i < length w' \<and> w' ! i = w ! i))"
proof -
  from compute_col_width_Inr [of tab pad] obtain w where
    w: "compute_col_width tab pad = Inr w" "length w = max_col_count tab"
       "\<forall>i<max_col_count tab.
        w ! i = Max ((\<lambda>row. length (row ! i)) ` {row \<in> set tab. i < length row}) + pad"
    by blast
  have "\<exists>w'. compute_col_width (filter (\<lambda>row. i < length row) tab) pad = Inr w' \<and>
                i < length w' \<and> w' ! i = w ! i" if i: "i < length w" for i
  proof -
    let ?tab = "filter (\<lambda>row. i < length row) tab"
    from compute_col_width_Inr [of ?tab pad] obtain w' where
      w': "compute_col_width ?tab pad = Inr w'" "length w' = max_col_count ?tab"
       "\<forall>j<max_col_count ?tab.
        w' ! j = Max ((\<lambda>row. length (row ! j)) ` {row \<in> set ?tab. j < length row}) + pad"
      by blast
    from i w(2) max_col_count_attained obtain r where "r \<in> set tab" "i < length r"
      by metis
    then have "r \<in> set ?tab" by simp
    from max_col_count_ge [OF this] \<open>i < length r\<close> have i': "i < max_col_count ?tab"
      by simp
    have "{row \<in> set ?tab. i < length row} = {row \<in> set tab. i < length row}" by auto
    with w'(3) i' w(3) i w(2) have "w' ! i = w ! i" by simp
    with w'(1,2) i' show ?thesis by simp
  qed
  with w show ?thesis
    by (simp add: max_col_count_Max)
qed

theorem compute_col_width_spec_witness:
  "compute_col_width [[''a'', ''b''], [''ccc'']] 1 = Inr [4, 2] \<and>
   Max ((\<lambda>row. length (row ! 1)) ` {row \<in> set [[''a'', ''b''], [''ccc'']]. 1 < length row}) + 1
     = 2"
proof -
  have e: "compute_col_width [[''a'', ''b''], [''ccc'']] 1 = Inr [4, 2]"
    by code_simp
  from compute_col_width_spec [of "[[''a'', ''b''], [''ccc'']]" 1] obtain w where
    w: "compute_col_width [[''a'', ''b''], [''ccc'']] 1 = Inr w" and
    a: "\<forall>i<length w. w ! i =
          Max ((\<lambda>row. length (row ! i)) ` {row \<in> set [[''a'', ''b''], [''ccc'']]. i < length row})
            + 1"
    by blast
  from e w have weq: "w = [4, 2]" by simp
  then have "1 < length w" by simp
  with a have "w ! 1 =
      Max ((\<lambda>row. length (row ! 1)) ` {row \<in> set [[''a'', ''b''], [''ccc'']]. 1 < length row}) + 1"
    by blast
  with weq have "Max ((\<lambda>row. length (row ! 1)) `
      {row \<in> set [[''a'', ''b''], [''ccc'']]. 1 < length row}) + 1 = 2"
    by simp
  with e show ?thesis by blast
qed

subsection \<open>The accesses stay in range\<close>

lemma border_col_step_Inr:
  "i < length cw \<Longrightarrow>
   border_col_step cw M m f i (Inr (t, out)) =
     Inr (to_int (t + (int (cw ! i) - 1)),
          out @ border_cell (cw ! i) (to_int (t + (int (cw ! i) - 1))) M m f)"
  by (simp add: border_col_step_def Let_def)

lemma border_cols_Inr:
  "n \<le> length cw \<Longrightarrow>
   \<exists>t out. fold (border_col_step cw M m f) [0..<n] (Inr (t0, out0)) = Inr (t, out)"
proof (induction n)
  case 0
  then show ?case by simp
next
  case (Suc n)
  then obtain t out where
    "fold (border_col_step cw M m f) [0..<n] (Inr (t0, out0)) = Inr (t, out)"
    by auto
  then have "fold (border_col_step cw M m f) [0..<Suc n] (Inr (t0, out0)) =
               border_col_step cw M m f n (Inr (t, out))"
    by simp
  with Suc.prems show ?case
    by (simp add: border_col_step_Inr)
qed

lemma border_line_Inr:
  assumes "mcc \<le> length w"
  shows "\<exists>out. border_line mcc w b c = Inr out"
proof -
  obtain t out where
    "fold (border_col_step w
             (to_int (fold (\<lambda>w acc. to_int (acc + int w)) w 0 - (int (length w) - 1)))
             (mid_char_unicode b) (fill_char_unicode b))
       [0..<mcc] (Inr (0, [left_char_unicode b])) = Inr (t, out)"
    using border_cols_Inr [OF assms] by blast
  then show ?thesis
    by (simp add: border_line_def get_tab_border_def get_tab_border_glyphs_def Let_def)
qed

lemma emit_all_Inr:
  "(\<And>x. x \<in> set xs \<Longrightarrow> \<exists>y. f x = Inr y) \<Longrightarrow> \<exists>y. emit_all f xs = Inr y"
proof (induction xs)
  case Nil
  then show ?case by simp
next
  case (Cons x xs)
  then obtain a b where "f x = Inr a" "emit_all f xs = Inr b"
    by (metis list.set_intros(1,2))
  then show ?case by simp
qed

lemma render_cell_Inr:
  "index < length w \<Longrightarrow> \<exists>y. render_cell cfg first w tab_row index = Inr y"
  by (simp add: render_cell_def Let_def)

lemma render_rows_Inr:
  "mcc \<le> length w \<Longrightarrow> \<exists>out. render_rows cfg mcc w first rows = Inr out"
proof (induction rows arbitrary: first)
  case Nil
  then show ?case by simp
next
  case (Cons tab_row rest)
  obtain t where t: "border_line mcc w (border_top (tab_border_style cfg)) (table_color cfg) = Inr t"
    using border_line_Inr [OF Cons.prems] by blast
  obtain s where s: "border_line mcc w (border_separator (tab_border_style cfg)) (table_color cfg) = Inr s"
    using border_line_Inr [OF Cons.prems] by blast
  obtain cells where c: "emit_all (render_cell cfg first w tab_row) [0..<mcc] = Inr cells"
    using emit_all_Inr [of "[0..<mcc]" "render_cell cfg first w tab_row"]
      render_cell_Inr Cons.prems by (metis atLeastLessThan_iff less_le_trans set_upt)
  obtain more where m: "render_rows cfg mcc w False rest = Inr more"
    using Cons.IH [OF Cons.prems] by blast
  show ?case
    by (simp add: t s c m)
qed

lemma render_table_Inr: "\<exists>out. render_table cfg tab = Inr out"
proof -
  obtain w where w: "compute_col_width tab (col_padding cfg) = Inr w"
    "length w = max_col_count tab"
    using compute_col_width_Inr by blast
  then have le: "max_col_count tab \<le> length w" by simp
  obtain rows_out where r: "render_rows cfg (max_col_count tab) w True tab = Inr rows_out"
    using render_rows_Inr [OF le] by blast
  obtain b where b: "border_line (max_col_count tab) w (border_bottom (tab_border_style cfg))
       (table_color cfg) = Inr b"
    using border_line_Inr [OF le] by blast
  show ?thesis
    by (simp add: render_table_def Let_def w(1) r b)
qed

text \<open>
  The header assignment on an empty table is the only access that can leave its
  vector: the run fails exactly when a header list is given, exclusion is off and no
  row was collected.
\<close>

lemma build_table_Inr_iff:
  "(\<exists>tab. build_table cfg inp = Inr tab) \<longleftrightarrow>
     \<not> (usrinput_header_data cfg \<noteq> [] \<and> \<not> exclude_first_line cfg \<and>
        collect_rows (col_separator cfg) (exclude_first_line cfg) inp = [])"
  by (auto simp: build_table_def set_header_def)

lemma tabstijl_main_Inr_iff:
  "(\<exists>out. tabstijl_main cfg inp = Inr out) \<longleftrightarrow>
     \<not> (usrinput_header_data cfg \<noteq> [] \<and> \<not> exclude_first_line cfg \<and>
        collect_rows (col_separator cfg) (exclude_first_line cfg) inp = [])"
proof -
  have "(\<exists>out. tabstijl_main cfg inp = Inr out) \<longleftrightarrow> (\<exists>tab. build_table cfg inp = Inr tab)"
  proof (cases "build_table cfg inp")
    case (Inl e)
    then show ?thesis by (simp add: tabstijl_main_def)
  next
    case (Inr tab)
    then show ?thesis using render_table_Inr [of cfg tab] by (simp add: tabstijl_main_def)
  qed
  then show ?thesis
    by (simp only: build_table_Inr_iff)
qed

subsection \<open>Reading the output again\<close>


lemma char_neq: "SPACE \<noteq> NEWLINE" "SPACE \<noteq> ESC" "NEWLINE \<noteq> ESC"
  by (simp_all add: SPACE_def NEWLINE_def ESC_def)

text \<open>
  The space is a separator under the space policy and under the any-whitespace policy
  (the separator \<open>VOID\<close>), and not when the separator is the tab or the newline.
\<close>

lemma space_is_separator: "is_wspace SPACE sep \<longleftrightarrow> sep \<noteq> TAB \<and> sep \<noteq> NEWLINE"
  by (auto simp: is_wspace_def isspace_def SPACE_def TAB_def NEWLINE_def)

lemma is_wspace_NEWLINE: "is_wspace NEWLINE sep"
  by (simp add: is_wspace_def isspace_def)

lemma read_space:
  "is_wspace SPACE sep \<Longrightarrow>
   read_char sep False SPACE (pstate q t T f) = pstate [] (t @ (if q = [] then [] else [q])) T f"
  by (simp add: read_char_def take_token_def Let_def char_neq)

lemma read_spaces:
  "is_wspace SPACE sep \<Longrightarrow> 0 < n \<Longrightarrow>
   fold (read_char sep False) (replicate n SPACE) (pstate q t T f) =
     pstate [] (t @ (if q = [] then [] else [q])) T f"
proof (induction n arbitrary: q t)
  case 0
  then show ?case by simp
next
  case (Suc n)
  show ?case
  proof (cases "n = 0")
    case True
    then show ?thesis using Suc.prems by (simp add: read_space)
  next
    case False
    then show ?thesis using Suc.prems Suc.IH [of "[]" "t @ (if q = [] then [] else [q])"]
      by (simp add: read_space)
  qed
qed

lemma read_cell:
  "\<forall>c\<in>set cell. \<not> is_wspace c sep \<Longrightarrow>
   fold (read_char sep False) cell (pstate q t T f) = pstate (q @ cell) t T f"
  by (induction cell arbitrary: q) (simp_all add: read_char_def)

lemma read_newline:
  "read_char sep False NEWLINE (pstate q t T f) =
     (if t @ (if q = [] then [] else [q]) \<noteq> []
      then pstate [] [] (T @ [t @ (if q = [] then [] else [q])]) f
      else pstate [] [] T f)"
  by (simp add: read_char_def take_token_def end_of_row_def Let_def is_wspace_NEWLINE)

lemma read_aligned_cell:
  assumes "is_wspace SPACE sep" "\<forall>x\<in>set c. \<not> is_wspace x sep" "q = [] \<or> 0 < a"
  shows "fold (read_char sep False) (replicate a SPACE @ c @ replicate b SPACE) (pstate q t T f) =
     (if b = 0 then pstate c (t @ (if q = [] then [] else [q])) T f
      else pstate [] (t @ (if q = [] then [] else [q]) @ (if c = [] then [] else [c])) T f)"
proof -
  have 1: "fold (read_char sep False) (replicate a SPACE) (pstate q t T f) =
           pstate [] (t @ (if q = [] then [] else [q])) T f"
  proof (cases "a = 0")
    case True
    with assms(3) show ?thesis by simp
  next
    case False
    then show ?thesis using read_spaces [OF assms(1)] by simp
  qed
  have 2: "fold (read_char sep False) c (pstate [] (t @ (if q = [] then [] else [q])) T f) =
           pstate c (t @ (if q = [] then [] else [q])) T f"
    using read_cell [OF assms(2), of "[]"] by simp
  have 3: "fold (read_char sep False) (replicate b SPACE)
             (pstate c (t @ (if q = [] then [] else [q])) T f) =
           (if b = 0 then pstate c (t @ (if q = [] then [] else [q])) T f
            else pstate [] (t @ (if q = [] then [] else [q]) @ (if c = [] then [] else [c])) T f)"
  proof (cases "b = 0")
    case True
    then show ?thesis by simp
  next
    case False
    then show ?thesis
      using read_spaces [OF assms(1), of b c "t @ (if q = [] then [] else [q])" T f] by simp
  qed
  show ?thesis
    by (simp only: fold_append o_apply 1 2 3)
qed

lemma align_text_shape:
  assumes "length c < w"
  shows "\<exists>a b. snd (align_text c w m) = replicate a SPACE @ c @ replicate b SPACE \<and>
           (if m = ALIGN_RIGHT then 0 < a \<and> b = 0 else 0 < b)"
proof -
  consider "m = ALIGN_RIGHT" | "m \<noteq> ALIGN_RIGHT" "m = ALIGN_CENTER"
    | "m \<noteq> ALIGN_RIGHT" "m \<noteq> ALIGN_CENTER"
    by blast
  then show ?thesis
  proof cases
    case 1
    then show ?thesis
      using assms
      by (intro exI [of _ "w - length c"] exI [of _ 0]) (simp add: align_text_def Let_def)
  next
    case 2
    have "0 < (w - length c) - (w - length c) div 2" using assms by arith
    with 2 show ?thesis
      using assms
      by (intro exI [of _ "(w - length c) div 2"]
            exI [of _ "(w - length c) - (w - length c) div 2"])
        (simp add: align_text_def Let_def)
  next
    case 3
    then show ?thesis
      using assms
      by (intro exI [of _ 0] exI [of _ "w - length c"]) (simp add: align_text_def Let_def)
  qed
qed

lemma align_text_blank: "snd (align_text [] w m) = replicate w SPACE"
proof -
  have "replicate (w div 2) SPACE @ replicate (w - w div 2) SPACE = replicate w SPACE"
    by (simp add: replicate_add [symmetric])
  then show ?thesis
    by (simp add: align_text_def Let_def)
qed

lemma read_row_prefix:
  assumes sp: "is_wspace SPACE sep"
    and cells: "\<forall>cell\<in>set row. cell \<noteq> [] \<and> (\<forall>c\<in>set cell. \<not> is_wspace c sep)"
    and wide: "\<forall>i<length row. length (row ! i) < w ! i"
    and pos: "\<forall>i<mcc. 0 < w ! i"
  shows "n \<le> mcc \<Longrightarrow>
    \<exists>q t. fold (read_char sep False)
             (concat (map (\<lambda>i. snd (align_text (if i < length row then row ! i else [])
                                      (w ! i) m)) [0..<n]))
             (pstate [] [] T f) = pstate q t T f \<and>
           t @ (if q = [] then [] else [q]) = take n row \<and>
           (m \<noteq> ALIGN_RIGHT \<longrightarrow> q = [])"
proof (induction n)
  case 0
  then show ?case by simp
next
  case (Suc n)
  let ?al = "\<lambda>i. snd (align_text (if i < length row then row ! i else []) (w ! i) m)"
  from Suc obtain q t where
    st: "fold (read_char sep False) (concat (map ?al [0..<n])) (pstate [] [] T f) = pstate q t T f"
    and pend: "t @ (if q = [] then [] else [q]) = take n row"
    and inv: "m \<noteq> ALIGN_RIGHT \<longrightarrow> q = []"
    by auto
  have split: "fold (read_char sep False) (concat (map ?al [0..<Suc n])) (pstate [] [] T f) =
               fold (read_char sep False) (?al n) (pstate q t T f)"
    using st by simp
  show ?case
  proof (cases "n < length row")
    case True
    let ?c = "row ! n"
    from True have "?c \<in> set row" by simp
    with cells have c: "?c \<noteq> []" "\<forall>x\<in>set ?c. \<not> is_wspace x sep"
      by blast+
    from True wide have "length ?c < w ! n" by simp
    from align_text_shape [OF this, of m] obtain a b where
      sh: "snd (align_text ?c (w ! n) m) = replicate a SPACE @ ?c @ replicate b SPACE"
      and ab: "if m = ALIGN_RIGHT then 0 < a \<and> b = 0 else 0 < b"
      by blast
    have pre: "q = [] \<or> 0 < a"
      using inv ab by (cases "m = ALIGN_RIGHT") simp_all
    have eq: "fold (read_char sep False) (?al n) (pstate q t T f) =
          (if b = 0 then pstate ?c (t @ (if q = [] then [] else [q])) T f
           else pstate [] (t @ (if q = [] then [] else [q]) @ [?c]) T f)"
      using read_aligned_cell [OF sp c(2) pre, of b t T f] True sh c(1) by simp
    have tk: "take (Suc n) row = take n row @ [?c]"
      using True by (simp add: take_Suc_conv_app_nth)
    show ?thesis
    proof (cases "b = 0")
      case True
      with ab have "m = ALIGN_RIGHT" by (cases "m = ALIGN_RIGHT") simp_all
      with split eq True pend tk c(1) show ?thesis by simp
    next
      case False
      with split eq pend tk show ?thesis by simp
    qed
  next
    case False
    from Suc.prems pos have "0 < w ! n" by simp
    then have "fold (read_char sep False) (?al n) (pstate q t T f) =
                 pstate [] (t @ (if q = [] then [] else [q])) T f"
      using False read_spaces [OF sp] by (simp add: align_text_blank)
    with split pend False show ?thesis by simp
  qed
qed

lemma read_row_line:
  assumes sp: "is_wspace SPACE sep"
    and cells: "\<forall>cell\<in>set row. cell \<noteq> [] \<and> (\<forall>c\<in>set cell. \<not> is_wspace c sep)"
    and wide: "\<forall>i<length row. length (row ! i) < w ! i"
    and pos: "\<forall>i<mcc. 0 < w ! i"
    and row: "row \<noteq> []" "length row \<le> mcc"
  shows "fold (read_char sep False)
           (concat (map (\<lambda>i. snd (align_text (if i < length row then row ! i else [])
                                    (w ! i) m)) [0..<mcc]) @ [NEWLINE])
           (pstate [] [] T f) = pstate [] [] (T @ [row]) f"
proof -
  from read_row_prefix [OF sp cells wide pos le_refl, of m T f] obtain q t where
    st: "fold (read_char sep False)
             (concat (map (\<lambda>i. snd (align_text (if i < length row then row ! i else [])
                                      (w ! i) m)) [0..<mcc]))
             (pstate [] [] T f) = pstate q t T f"
    and pend: "t @ (if q = [] then [] else [q]) = take mcc row"
    by blast
  from pend row have pr: "t @ (if q = [] then [] else [q]) = row" by simp
  have "fold (read_char sep False)
           (concat (map (\<lambda>i. snd (align_text (if i < length row then row ! i else [])
                                    (w ! i) m)) [0..<mcc]) @ [NEWLINE])
           (pstate [] [] T f) = read_char sep False NEWLINE (pstate q t T f)"
    using st by simp
  also have "\<dots> = pstate [] [] (T @ [row]) f"
    using pr row(1) by (simp only: read_newline) simp
  finally show ?thesis .
qed

lemma emit_all_map:
  "(\<And>x. x \<in> set xs \<Longrightarrow> f x = Inr (g x)) \<Longrightarrow> emit_all f xs = Inr (concat (map g xs))"
  by (induction xs) simp_all

lemma setw_left_aligned [simp]: "setw_left w (snd (align_text c w m)) = snd (align_text c w m)"
  by (simp add: setw_left_def align_text_length)

lemma render_cells_plain:
  assumes "unstyled cfg" "\<not> use_border cfg" "mcc \<le> length w"
  shows "\<exists>m. emit_all (render_cell cfg first w row) [0..<mcc] =
           Inr (concat (map (\<lambda>i. snd (align_text (if i < length row then row ! i else [])
                                       (w ! i) m) @ DEFAULT) [0..<mcc]))"
proof -
  let ?m = "if first \<and> \<not> headerless cfg then header_text_align cfg
            else if \<not> first \<or> headerless cfg then body_text_align cfg else ALIGN_LEFT"
  have "render_cell cfg first w row i =
          Inr (snd (align_text (if i < length row then row ! i else []) (w ! i) ?m) @ DEFAULT)"
    if "i \<in> set [0..<mcc]" for i
    using that assms by (simp add: render_cell_def unstyled_def Let_def)
  from emit_all_map [of "[0..<mcc]" "render_cell cfg first w row", OF this]
  show ?thesis by blast
qed

lemma strip_no_escape: "ESC \<notin> set s \<Longrightarrow> strip_sgr False (s @ t) = s @ strip_sgr False t"
  by (induction s) auto

lemma strip_DEFAULT: "strip_sgr False (DEFAULT @ t) = strip_sgr False t"
  by (simp add: DEFAULT_def)

lemma strip_cells:
  "\<forall>x\<in>set xs. ESC \<notin> set (g x) \<Longrightarrow>
   strip_sgr False (concat (map (\<lambda>x. g x @ DEFAULT) xs) @ t) =
     concat (map g xs) @ strip_sgr False t"
  by (induction xs) (simp_all add: strip_no_escape strip_DEFAULT)

lemma align_text_set: "set (snd (align_text c w m)) \<subseteq> insert SPACE (set c)"
  by (auto simp: align_text_def Let_def split: if_splits)

lemma render_rows_retokenize:
  assumes cfg: "unstyled cfg" "\<not> use_border cfg"
    and sp: "is_wspace SPACE sep"
    and w: "mcc \<le> length w" "\<forall>i<mcc. 0 < w ! i"
  shows "\<forall>row\<in>set rows. row \<noteq> [] \<and> length row \<le> mcc \<and>
             (\<forall>i<length row. length (row ! i) < w ! i) \<and>
             (\<forall>cell\<in>set row. cell \<noteq> [] \<and> (\<forall>c\<in>set cell. \<not> is_wspace c sep \<and> c \<noteq> ESC)) \<Longrightarrow>
         \<exists>out. render_rows cfg mcc w first rows = Inr out \<and>
           (\<forall>T f. fold (read_char sep False) (strip_sgr False out) (pstate [] [] T f) =
                    pstate [] [] (T @ rows) f)"
proof (induction rows arbitrary: first)
  case Nil
  then show ?case by simp
next
  case (Cons row rest)
  let ?cell = "\<lambda>i. if i < length row then row ! i else []"
  from Cons.prems have row: "row \<noteq> []" "length row \<le> mcc"
    "\<forall>i<length row. length (row ! i) < w ! i"
    "\<forall>cell\<in>set row. cell \<noteq> [] \<and> (\<forall>c\<in>set cell. \<not> is_wspace c sep \<and> c \<noteq> ESC)"
    by simp_all
  then have cells: "\<forall>cell\<in>set row. cell \<noteq> [] \<and> (\<forall>c\<in>set cell. \<not> is_wspace c sep)"
    by blast
  from render_cells_plain [OF cfg w(1), of first row] obtain m where
    m: "emit_all (render_cell cfg first w row) [0..<mcc] =
          Inr (concat (map (\<lambda>i. snd (align_text (?cell i) (w ! i) m) @ DEFAULT) [0..<mcc]))"
    by blast
  from Cons.prems have "\<forall>row\<in>set rest. row \<noteq> [] \<and> length row \<le> mcc \<and>
             (\<forall>i<length row. length (row ! i) < w ! i) \<and>
             (\<forall>cell\<in>set row. cell \<noteq> [] \<and> (\<forall>c\<in>set cell. \<not> is_wspace c sep \<and> c \<noteq> ESC))"
    by simp
  from Cons.IH [OF this, of False] obtain more where
    more: "render_rows cfg mcc w False rest = Inr more"
    and rest: "\<And>T f. fold (read_char sep False) (strip_sgr False more) (pstate [] [] T f) =
                    pstate [] [] (T @ rest) f"
    by blast
  let ?line = "concat (map (\<lambda>i. snd (align_text (?cell i) (w ! i) m)) [0..<mcc])"
  have out: "render_rows cfg mcc w first (row # rest) =
          Inr (concat (map (\<lambda>i. snd (align_text (?cell i) (w ! i) m) @ DEFAULT) [0..<mcc])
               @ [NEWLINE] @ more)"
    using cfg by (simp add: m more)
  have noesc: "\<forall>i\<in>set [0..<mcc]. ESC \<notin> set (snd (align_text (?cell i) (w ! i) m))"
  proof
    fix i assume "i \<in> set [0..<mcc]"
    have "ESC \<notin> set (?cell i)"
    proof (cases "i < length row")
      case True
      then have "row ! i \<in> set row" by simp
      with row(4) have "\<forall>c\<in>set (row ! i). c \<noteq> ESC" by blast
      with True show ?thesis by auto
    next
      case False
      then show ?thesis by simp
    qed
    then show "ESC \<notin> set (snd (align_text (?cell i) (w ! i) m))"
      using align_text_set [of "?cell i" "w ! i" m] char_neq(2) by auto
  qed
  have strip: "strip_sgr False
          (concat (map (\<lambda>i. snd (align_text (?cell i) (w ! i) m) @ DEFAULT) [0..<mcc])
               @ [NEWLINE] @ more) = (?line @ [NEWLINE]) @ strip_sgr False more"
    using strip_cells [OF noesc] char_neq(3) by simp
  let ?out = "concat (map (\<lambda>i. snd (align_text (?cell i) (w ! i) m) @ DEFAULT) [0..<mcc])
               @ [NEWLINE] @ more"
  have tok: "fold (read_char sep False) ((?line @ [NEWLINE]) @ strip_sgr False more)
               (pstate [] [] T f) = pstate [] [] (T @ row # rest) f" for T f
  proof -
    have "fold (read_char sep False) ((?line @ [NEWLINE]) @ strip_sgr False more)
               (pstate [] [] T f) =
          fold (read_char sep False) (strip_sgr False more)
            (fold (read_char sep False) (?line @ [NEWLINE]) (pstate [] [] T f))"
      by (simp only: fold_append o_apply)
    also have "\<dots> = fold (read_char sep False) (strip_sgr False more)
                       (pstate [] [] (T @ [row]) f)"
      by (simp only: read_row_line [OF sp cells row(3) w(2) row(1,2), of m T f])
    also have "\<dots> = pstate [] [] ((T @ [row]) @ rest) f"
      by (rule rest)
    finally show ?thesis by simp
  qed
  have again: "fold (read_char sep False) (strip_sgr False ?out) (pstate [] [] T f) =
                 pstate [] [] (T @ row # rest) f" for T f
    by (simp only: strip tok)
  show ?case
  proof (intro exI [of _ ?out] conjI allI)
    show "render_rows cfg mcc w first (row # rest) = Inr ?out"
      by (rule out)
    show "fold (read_char sep False) (strip_sgr False ?out) (pstate [] [] T f) =
            pstate [] [] (T @ row # rest) f" for T f
      by (rule again)
  qed
qed

lemma is_wspace_ESC: "\<not> is_wspace ESC sep"
  by (auto simp: is_wspace_def isspace_def ESC_def NEWLINE_def SPACE_def TAB_def)


lemma read_char_inv: "c \<noteq> ESC \<Longrightarrow> row_inv sep s \<Longrightarrow> row_inv sep (read_char sep excl c s)"
  by (auto simp: row_inv_def read_char_def take_token_def end_of_row_def tokenized_def
      escape_free_def Let_def)

lemma fold_read_char_inv:
  "ESC \<notin> set inp \<Longrightarrow> row_inv sep s \<Longrightarrow> row_inv sep (fold (read_char sep excl) inp s)"
  by (induction inp arbitrary: s) (auto simp: read_char_inv)

lemma flush_eof_inv: "row_inv sep s \<Longrightarrow> row_inv sep (flush_eof s)"
  by (auto simp: row_inv_def flush_eof_def tokenized_def escape_free_def Let_def)

lemma collect_rows_tokenized:
  "ESC \<notin> set inp \<Longrightarrow>
   tokenized sep (collect_rows sep excl inp) \<and> escape_free (collect_rows sep excl inp)"
proof -
  assume "ESC \<notin> set inp"
  moreover have "row_inv sep init_state"
    by (simp add: row_inv_def init_state_def tokenized_def escape_free_def)
  ultimately have "row_inv sep (read_input sep excl inp)"
    unfolding read_input_def by (intro flush_eof_inv fold_read_char_inv)
  then show ?thesis
    by (simp add: row_inv_def collect_rows_def)
qed

text \<open>
  C8, as amended. Take a table whose rows are not empty and whose cells are not empty
  and hold no separator character and no \<open>ESC\<close> (every table read from input
  without \<open>ESC\<close> is such), a configuration with no colour and no style, with
  borders off and a padding of at least 1, and a separator policy under which the space
  is a separator. Then rendering succeeds, and reading the output again under the same
  policy, its escape sequences removed, gives the table itself.
\<close>

theorem retokenize_rendered_table:
  assumes "unstyled cfg" "\<not> use_border cfg" "1 \<le> col_padding cfg"
    and "is_wspace SPACE sep" "tokenized sep tab" "escape_free tab"
  shows "retokenize cfg sep tab = Inr tab"
proof -
  obtain w where w: "compute_col_width tab (col_padding cfg) = Inr w"
    "length w = max_col_count tab"
    "\<forall>i<max_col_count tab.
        w ! i = Max ((\<lambda>row. length (row ! i)) ` {row \<in> set tab. i < length row})
                  + col_padding cfg"
    using compute_col_width_Inr by blast
  have pos: "\<forall>i<max_col_count tab. 0 < w ! i"
    using w(3) assms(3) by simp
  have rows: "\<forall>row\<in>set tab. row \<noteq> [] \<and> length row \<le> max_col_count tab \<and>
             (\<forall>i<length row. length (row ! i) < w ! i) \<and>
             (\<forall>cell\<in>set row. cell \<noteq> [] \<and> (\<forall>c\<in>set cell. \<not> is_wspace c sep \<and> c \<noteq> ESC))"
  proof
    fix row assume r: "row \<in> set tab"
    have le: "length row \<le> max_col_count tab" using max_col_count_ge [OF r] .
    have "length (row ! i) < w ! i" if i: "i < length row" for i
    proof -
      have "length (row ! i) \<in> (\<lambda>row. length (row ! i)) ` {row \<in> set tab. i < length row}"
        using r i by blast
      then have "length (row ! i) \<le>
                 Max ((\<lambda>row. length (row ! i)) ` {row \<in> set tab. i < length row})"
        by (intro Max_ge) simp_all
      moreover have "i < max_col_count tab" using i le by simp
      ultimately show ?thesis using w(3) assms(3) by simp
    qed
    moreover have "\<forall>cell\<in>set row. cell \<noteq> [] \<and> (\<forall>c\<in>set cell. \<not> is_wspace c sep \<and> c \<noteq> ESC)"
      using r assms(5,6) unfolding tokenized_def escape_free_def by blast
    moreover have "row \<noteq> []"
      using r assms(5) unfolding tokenized_def by blast
    ultimately show "row \<noteq> [] \<and> length row \<le> max_col_count tab \<and>
             (\<forall>i<length row. length (row ! i) < w ! i) \<and>
             (\<forall>cell\<in>set row. cell \<noteq> [] \<and> (\<forall>c\<in>set cell. \<not> is_wspace c sep \<and> c \<noteq> ESC))"
      using le by blast
  qed
  have "max_col_count tab \<le> length w" using w(2) by simp
  from render_rows_retokenize [OF assms(1,2,4) this pos rows, of True] obtain out where
    out: "render_rows cfg (max_col_count tab) w True tab = Inr out"
    and tok: "\<And>T f. fold (read_char sep False) (strip_sgr False out) (pstate [] [] T f) =
                    pstate [] [] (T @ tab) f"
    by blast
  have "render_table cfg tab = Inr out"
    using assms(2) by (simp add: render_table_def Let_def w(1) out)
  moreover have "collect_rows sep False (strip_styling out) = tab"
    using tok [of "[]" True]
    by (simp add: collect_rows_def read_input_def init_state_def strip_styling_def
        flush_eof_def Let_def)
  ultimately show ?thesis by (simp add: retokenize_def)
qed

theorem retokenize_rendered_table_witness:
  "unstyled (default_config\<lparr>use_border := False\<rparr>) \<and>
   \<not> use_border (default_config\<lparr>use_border := False\<rparr>) \<and>
   1 \<le> col_padding (default_config\<lparr>use_border := False\<rparr>) \<and>
   is_wspace SPACE SPACE \<and>
   tokenized SPACE [[''a'', ''b''], [''ccc'', ''dd'']] \<and>
   escape_free [[''a'', ''b''], [''ccc'', ''dd'']] \<and>
   collect_rows SPACE False (''a b'' @ [NEWLINE] @ ''ccc dd'' @ [NEWLINE]) =
     [[''a'', ''b''], [''ccc'', ''dd'']] \<and>
   retokenize (default_config\<lparr>use_border := False\<rparr>) SPACE [[''a'', ''b''], [''ccc'', ''dd'']] =
     Inr [[''a'', ''b''], [''ccc'', ''dd'']]"
proof -
  have 1: "unstyled (default_config\<lparr>use_border := False\<rparr>)" by code_simp
  have 2: "\<not> use_border (default_config\<lparr>use_border := False\<rparr>)" by code_simp
  have 3: "1 \<le> col_padding (default_config\<lparr>use_border := False\<rparr>)" by code_simp
  have 4: "is_wspace SPACE SPACE" by code_simp
  have 5: "collect_rows SPACE False (''a b'' @ [NEWLINE] @ ''ccc dd'' @ [NEWLINE]) =
     [[''a'', ''b''], [''ccc'', ''dd'']]" by code_simp
  have "ESC \<notin> set (''a b'' @ [NEWLINE] @ ''ccc dd'' @ [NEWLINE])" by code_simp
  from collect_rows_tokenized [OF this, of SPACE False]
  have 6: "tokenized SPACE [[''a'', ''b''], [''ccc'', ''dd'']]"
    and 7: "escape_free [[''a'', ''b''], [''ccc'', ''dd'']]"
    by (simp_all only: 5)
  have "retokenize (default_config\<lparr>use_border := False\<rparr>) SPACE
          [[''a'', ''b''], [''ccc'', ''dd'']] = Inr [[''a'', ''b''], [''ccc'', ''dd'']]"
    by (rule retokenize_rendered_table [OF 1 2 3 4 6 7])
  with 1 2 3 4 5 6 7 show ?thesis by (intro conjI)
qed

text \<open>
  C8 as stated fails. Four tables read from input and rendered without styling: with
  the default configuration (borders on) the dividers and border lines are read back as
  cells and rows; with borders off and padding 0 two cells run together; with borders
  off and the tab as separator the padding spaces do not separate the cells; and a cell
  that itself holds an escape sequence loses it when the styling is stripped.
\<close>

theorem retokenize_counterexample:
  "collect_rows SPACE False (''a b'' @ [NEWLINE]) = [[''a'', ''b'']] \<and>
   unstyled default_config \<and> tokenized SPACE [[''a'', ''b'']] \<and>
   retokenize default_config SPACE [[''a'', ''b'']] =
     Inr [[left_char_unicode (border_top single_border_style)
             @ concat (replicate 3 (fill_char_unicode (border_top single_border_style)))
             @ mid_char_unicode (border_top single_border_style)
             @ concat (replicate 3 (fill_char_unicode (border_top single_border_style)))
             @ right_char_unicode (border_top single_border_style)],
          [vertical_line single_border_style @ ''a'',
           vertical_line single_border_style @ ''b'',
           vertical_line single_border_style],
          [left_char_unicode (border_separator single_border_style)
             @ concat (replicate 3 (fill_char_unicode (border_separator single_border_style)))
             @ mid_char_unicode (border_separator single_border_style)
             @ concat (replicate 3 (fill_char_unicode (border_separator single_border_style)))
             @ right_char_unicode (border_separator single_border_style)],
          [left_char_unicode (border_bottom single_border_style)
             @ concat (replicate 3 (fill_char_unicode (border_bottom single_border_style)))
             @ mid_char_unicode (border_bottom single_border_style)
             @ concat (replicate 3 (fill_char_unicode (border_bottom single_border_style)))
             @ right_char_unicode (border_bottom single_border_style)]] \<and>
   collect_rows SPACE False (''ab cd'' @ [NEWLINE]) = [[''ab'', ''cd'']] \<and>
   unstyled (default_config\<lparr>use_border := False, col_padding := 0\<rparr>) \<and>
   tokenized SPACE [[''ab'', ''cd'']] \<and>
   retokenize (default_config\<lparr>use_border := False, col_padding := 0\<rparr>) SPACE
     [[''ab'', ''cd'']] = Inr [[''abcd'']] \<and>
   collect_rows TAB False (''a'' @ [TAB] @ ''b'' @ [NEWLINE]) = [[''a'', ''b'']] \<and>
   unstyled (default_config\<lparr>use_border := False, col_separator := TAB\<rparr>) \<and>
   tokenized TAB [[''a'', ''b'']] \<and>
   retokenize (default_config\<lparr>use_border := False, col_separator := TAB\<rparr>) TAB
     [[''a'', ''b'']] = Inr [[''a  b  '']] \<and>
   collect_rows SPACE False (BOLD @ ''X'' @ [NEWLINE]) = [[BOLD @ ''X'']] \<and>
   unstyled (default_config\<lparr>use_border := False\<rparr>) \<and>
   tokenized SPACE [[BOLD @ ''X'']] \<and>
   retokenize (default_config\<lparr>use_border := False\<rparr>) SPACE [[BOLD @ ''X'']] =
     Inr [[''X'']]"
  by code_simp

subsection \<open>The explicit header list\<close>

text \<open>
  When a first row was collected, the header list takes its place and the other rows
  stay; when header exclusion is on, the header list is not used.
\<close>

lemma header_list_replaces_first_row:
  assumes "usrinput_header_data cfg \<noteq> []" "\<not> exclude_first_line cfg"
    and "collect_rows (col_separator cfg) False inp \<noteq> []"
  shows "build_table cfg inp =
           Inr (usrinput_header_data cfg # tl (collect_rows (col_separator cfg) False inp))"
  using assms
  by (cases "collect_rows (col_separator cfg) False inp")
    (simp_all add: build_table_def set_header_def)

lemma header_list_ignored_when_excluded:
  "exclude_first_line cfg \<Longrightarrow>
   build_table cfg inp = Inr (collect_rows (col_separator cfg) True inp)"
  by (simp add: build_table_def set_header_def)

text \<open>
  The first line of rows that is printed: the top border and the left divider when
  borders are on, then for each column the style codes, the aligned cell of row 0, the
  reset, the table colour and the divider.
\<close>

lemma render_first_cell:
  "i < length w \<Longrightarrow>
   render_cell cfg True w tab_row i =
     Inr ((if \<not> headerless cfg
           then header_text_style cfg @ header_bg_color cfg @ header_text_color cfg
           else body_text_style cfg @ body_bg_color cfg @ body_text_color cfg)
          @ snd (align_text (if i < length tab_row then tab_row ! i else []) (w ! i)
                   (if \<not> headerless cfg then header_text_align cfg
                    else body_text_align cfg))
          @ DEFAULT @ table_color cfg
          @ (if use_border cfg then vertical_line (tab_border_style cfg) else []))"
  by (simp add: render_cell_def Let_def)

lemma render_rows_first_row:
  assumes "mcc \<le> length w"
  shows "\<exists>top more.
     border_line mcc w (border_top (tab_border_style cfg)) (table_color cfg) = Inr top \<and>
     render_rows cfg mcc w True (tab_row # rest) =
       Inr ((if use_border cfg
             then top @ table_color cfg @ vertical_line (tab_border_style cfg) @ DEFAULT
             else [])
            @ concat (map (\<lambda>i.
                (if \<not> headerless cfg
                 then header_text_style cfg @ header_bg_color cfg @ header_text_color cfg
                 else body_text_style cfg @ body_bg_color cfg @ body_text_color cfg)
                @ snd (align_text (if i < length tab_row then tab_row ! i else []) (w ! i)
                         (if \<not> headerless cfg then header_text_align cfg
                          else body_text_align cfg))
                @ DEFAULT @ table_color cfg
                @ (if use_border cfg then vertical_line (tab_border_style cfg) else []))
              [0..<mcc])
            @ [NEWLINE] @ more)"
proof -
  let ?g = "\<lambda>i. (if \<not> headerless cfg
                 then header_text_style cfg @ header_bg_color cfg @ header_text_color cfg
                 else body_text_style cfg @ body_bg_color cfg @ body_text_color cfg)
                @ snd (align_text (if i < length tab_row then tab_row ! i else []) (w ! i)
                         (if \<not> headerless cfg then header_text_align cfg
                          else body_text_align cfg))
                @ DEFAULT @ table_color cfg
                @ (if use_border cfg then vertical_line (tab_border_style cfg) else [])"
  obtain top where
    t: "border_line mcc w (border_top (tab_border_style cfg)) (table_color cfg) = Inr top"
    using border_line_Inr [OF assms] by blast
  obtain sp where
    s: "border_line mcc w (border_separator (tab_border_style cfg)) (table_color cfg) = Inr sp"
    using border_line_Inr [OF assms] by blast
  obtain more where m: "render_rows cfg mcc w False rest = Inr more"
    using render_rows_Inr [OF assms] by blast
  have cells: "emit_all (render_cell cfg True w tab_row) [0..<mcc] =
                 Inr (concat (map ?g [0..<mcc]))"
  proof (rule emit_all_map)
    fix i assume "i \<in> set [0..<mcc]"
    then have "i < length w" using assms by simp
    then show "render_cell cfg True w tab_row i = Inr (?g i)"
      by (rule render_first_cell)
  qed
  let ?sep = "if \<not> headerless cfg \<and> use_border cfg \<and> use_separator cfg then sp else []"
  have rows: "render_rows cfg mcc w True (tab_row # rest) =
       Inr ((if use_border cfg
             then top @ table_color cfg @ vertical_line (tab_border_style cfg) @ DEFAULT
             else [])
            @ concat (map ?g [0..<mcc]) @ [NEWLINE] @ ?sep @ more)"
    by (simp add: t s m cells)
  show ?thesis
    apply (rule exI [of _ top])
    apply (rule exI [of _ "?sep @ more"])
    apply (rule conjI)
     apply (rule t)
    apply (rule rows)
    done
qed

text \<open>
  So, when a first row was collected, the row printed first holds the cells of the
  header list, aligned and styled as a header, and nothing of the first input row.
\<close>

lemma explicit_header_rendered:
  assumes "usrinput_header_data cfg \<noteq> []" "\<not> exclude_first_line cfg"
    and "collect_rows (col_separator cfg) False inp \<noteq> []"
  shows "\<exists>w top rest_out.
     compute_col_width
       (usrinput_header_data cfg # tl (collect_rows (col_separator cfg) False inp))
       (col_padding cfg) = Inr w \<and>
     border_line
       (max_col_count
          (usrinput_header_data cfg # tl (collect_rows (col_separator cfg) False inp)))
       w (border_top (tab_border_style cfg)) (table_color cfg) = Inr top \<and>
     tabstijl_main cfg inp =
       Inr ((if use_border cfg
             then top @ table_color cfg @ vertical_line (tab_border_style cfg) @ DEFAULT
             else [])
            @ concat (map (\<lambda>i.
                (if \<not> headerless cfg
                 then header_text_style cfg @ header_bg_color cfg @ header_text_color cfg
                 else body_text_style cfg @ body_bg_color cfg @ body_text_color cfg)
                @ snd (align_text
                         (if i < length (usrinput_header_data cfg)
                          then usrinput_header_data cfg ! i else [])
                         (w ! i)
                         (if \<not> headerless cfg then header_text_align cfg
                          else body_text_align cfg))
                @ DEFAULT @ table_color cfg
                @ (if use_border cfg then vertical_line (tab_border_style cfg) else []))
              [0..<max_col_count
                     (usrinput_header_data cfg
                        # tl (collect_rows (col_separator cfg) False inp))])
            @ [NEWLINE] @ rest_out)"
proof -
  let ?hdr = "usrinput_header_data cfg"
  let ?tab = "?hdr # tl (collect_rows (col_separator cfg) False inp)"
  obtain w where w: "compute_col_width ?tab (col_padding cfg) = Inr w"
    "length w = max_col_count ?tab"
    using compute_col_width_Inr by blast
  then have le: "max_col_count ?tab \<le> length w" by simp
  from render_rows_first_row [OF le, of cfg ?hdr "tl (collect_rows (col_separator cfg) False inp)"]
  obtain top more where
    t: "border_line (max_col_count ?tab) w (border_top (tab_border_style cfg))
          (table_color cfg) = Inr top"
    and r: "render_rows cfg (max_col_count ?tab) w True ?tab =
       Inr ((if use_border cfg
             then top @ table_color cfg @ vertical_line (tab_border_style cfg) @ DEFAULT
             else [])
            @ concat (map (\<lambda>i.
                (if \<not> headerless cfg
                 then header_text_style cfg @ header_bg_color cfg @ header_text_color cfg
                 else body_text_style cfg @ body_bg_color cfg @ body_text_color cfg)
                @ snd (align_text (if i < length ?hdr then ?hdr ! i else []) (w ! i)
                         (if \<not> headerless cfg then header_text_align cfg
                          else body_text_align cfg))
                @ DEFAULT @ table_color cfg
                @ (if use_border cfg then vertical_line (tab_border_style cfg) else []))
              [0..<max_col_count ?tab])
            @ [NEWLINE] @ more)"
    by blast
  obtain b where b: "border_line (max_col_count ?tab) w (border_bottom (tab_border_style cfg))
       (table_color cfg) = Inr b"
    using border_line_Inr [OF le] by blast
  have "tabstijl_main cfg inp = render_table cfg ?tab"
    by (simp add: tabstijl_main_def header_list_replaces_first_row [OF assms])
  also have "\<dots> = ebind (render_rows cfg (max_col_count ?tab) w True ?tab)
       (\<lambda>rows_out. Inr (rows_out @ (if use_border cfg then b else [])))"
    by (simp add: render_table_def Let_def w(1) b)
  finally have main: "tabstijl_main cfg inp =
      ebind (render_rows cfg (max_col_count ?tab) w True ?tab)
       (\<lambda>rows_out. Inr (rows_out @ (if use_border cfg then b else [])))" .
  show ?thesis
  proof (rule exI [of _ w], rule exI [of _ top],
      rule exI [of _ "more @ (if use_border cfg then b else [])"], intro conjI)
    show "compute_col_width ?tab (col_padding cfg) = Inr w" by (rule w(1))
    show "border_line (max_col_count ?tab) w (border_top (tab_border_style cfg))
          (table_color cfg) = Inr top" by (rule t)
    show "tabstijl_main cfg inp =
       Inr ((if use_border cfg
             then top @ table_color cfg @ vertical_line (tab_border_style cfg) @ DEFAULT
             else [])
            @ concat (map (\<lambda>i.
                (if \<not> headerless cfg
                 then header_text_style cfg @ header_bg_color cfg @ header_text_color cfg
                 else body_text_style cfg @ body_bg_color cfg @ body_text_color cfg)
                @ snd (align_text (if i < length ?hdr then ?hdr ! i else []) (w ! i)
                         (if \<not> headerless cfg then header_text_align cfg
                          else body_text_align cfg))
                @ DEFAULT @ table_color cfg
                @ (if use_border cfg then vertical_line (tab_border_style cfg) else []))
              [0..<max_col_count ?tab])
            @ [NEWLINE] @ more @ (if use_border cfg then b else []))"
      by (simp only: main r ebind_Inr append_assoc append_Cons append_Nil)
  qed
qed

text \<open>
  The header list \<open>id\<close>, \<open>name\<close> on the input \<open>x y\<close>, \<open>a b\<close>,
  borders off: the first line printed is \<open>id\<close> and \<open>name\<close>.
\<close>

lemma scenario_D_rendered_header:
  "tabstijl_main (default_config\<lparr>use_border := False,
                                 usrinput_header_data := [''id'', ''name'']\<rparr>)
     (''x y'' @ [NEWLINE] @ ''a b'' @ [NEWLINE]) =
     Inr (''id  '' @ DEFAULT @ ''name  '' @ DEFAULT @ [NEWLINE]
          @ ''a   '' @ DEFAULT @ ''b     '' @ DEFAULT @ [NEWLINE])"
  by code_simp

text \<open>
  C7. Empty input with the header list \<open>id\<close>, \<open>name\<close> and header exclusion
  off: no row is collected, so the table has no row 0 for the header list to take; the
  assignment is out of range and no table is built.
\<close>

theorem header_list_without_row0:
  "collect_rows SPACE False [] = [] \<and>
   set_header [''id'', ''name''] False [] = Inl OutOfRange \<and>
   build_table (default_config\<lparr>usrinput_header_data := [''id'', ''name'']\<rparr>) [] =
     Inl OutOfRange"
  by code_simp

subsection \<open>Header exclusion\<close>

lemma read_char_not_first:
  "read_char sep True c (pstate q t T False) = read_char sep False c (pstate q t T False)"
  by (simp add: read_char_def take_token_def end_of_row_def Let_def)

lemma read_char_keeps_not_first:
  "first_line (read_char sep False c s) = first_line s"
  by (simp add: read_char_def take_token_def end_of_row_def Let_def)

lemma read_char_first_line_irrelevant:
  "read_char sep False c (s\<lparr>first_line := f\<rparr>) = (read_char sep False c s)\<lparr>first_line := f\<rparr>"
  by (simp add: read_char_def take_token_def end_of_row_def Let_def)

lemma fold_read_char_first_line_irrelevant:
  "fold (read_char sep False) inp (s\<lparr>first_line := f\<rparr>) =
     (fold (read_char sep False) inp s)\<lparr>first_line := f\<rparr>"
  by (induction inp arbitrary: s) (simp_all add: read_char_first_line_irrelevant)

lemma fold_read_char_not_first:
  "first_line s = False \<Longrightarrow>
   fold (read_char sep True) inp s = fold (read_char sep False) inp s"
proof (induction inp arbitrary: s)
  case Nil
  then show ?case by simp
next
  case (Cons c inp)
  obtain q t T where s: "s = pstate q t T False"
    using Cons.prems by (cases s) simp
  have "read_char sep True c s = read_char sep False c s"
    by (simp only: s read_char_not_first)
  moreover have "first_line (read_char sep False c s) = False"
    using Cons.prems by (simp add: read_char_keeps_not_first)
  ultimately show ?case
    using Cons.IH by simp
qed

lemma skip_first_line:
  "\<forall>c\<in>set line. c \<noteq> NEWLINE \<Longrightarrow>
   \<exists>q. fold (read_char sep True) line (pstate q0 [] [] True) = pstate q [] [] True"
proof (induction line arbitrary: q0)
  case Nil
  then show ?case by simp
next
  case (Cons c line)
  then have "c \<noteq> NEWLINE" by simp
  then have "\<exists>q1. read_char sep True c (pstate q0 [] [] True) = pstate q1 [] [] True"
    by (simp add: read_char_def take_token_def Let_def)
  then obtain q1 where "read_char sep True c (pstate q0 [] [] True) = pstate q1 [] [] True" ..
  with Cons show ?case by simp
qed

lemma flush_eof_first_line: "flush_eof (s\<lparr>first_line := f\<rparr>) = flush_eof s"
  by (simp add: flush_eof_def Let_def)

text \<open>
  When the first line ends with a newline, exclusion discards the whole line: the table
  is the one read from the rest of the input.
\<close>

lemma excluded_first_row_with_newline:
  assumes "\<forall>c\<in>set line. c \<noteq> NEWLINE"
  shows "collect_rows sep True (line @ NEWLINE # rest) = collect_rows sep False rest"
proof -
  from skip_first_line [OF assms, of sep "[]"] obtain q where
    q: "fold (read_char sep True) line init_state = pstate q [] [] True"
    by (auto simp: init_state_def)
  have nl: "read_char sep True NEWLINE (pstate q [] [] True) = init_state\<lparr>first_line := False\<rparr>"
    by (simp add: read_char_def take_token_def end_of_row_def Let_def is_wspace_NEWLINE
        init_state_def)
  have "fold (read_char sep True) (line @ NEWLINE # rest) init_state =
          fold (read_char sep True) rest (init_state\<lparr>first_line := False\<rparr>)"
    by (simp add: q nl)
  also have "\<dots> = fold (read_char sep False) rest (init_state\<lparr>first_line := False\<rparr>)"
    by (rule fold_read_char_not_first) simp
  also have "\<dots> = (fold (read_char sep False) rest init_state)\<lparr>first_line := False\<rparr>"
    by (rule fold_read_char_first_line_irrelevant)
  finally show ?thesis
    by (simp add: collect_rows_def read_input_def flush_eof_first_line)
qed

subsection \<open>The border line\<close>

lemma to_int_id: "- (2 ^ 31) \<le> x \<Longrightarrow> x < 2 ^ 31 \<Longrightarrow> to_int x = x"
  by (simp add: to_int_def)

lemma width_sum_fold:
  "0 \<le> acc \<Longrightarrow> acc + int (sum_list ws) < 2 ^ 31 \<Longrightarrow>
   fold (\<lambda>w acc. to_int (acc + int w)) ws acc = acc + int (sum_list ws)"
proof (induction ws arbitrary: acc)
  case Nil
  then show ?case by simp
next
  case (Cons a ws)
  have "to_int (acc + int a) = acc + int a"
    using Cons.prems by (intro to_int_id) simp_all
  moreover have "fold (\<lambda>w acc. to_int (acc + int w)) ws (acc + int a) =
                   acc + int a + int (sum_list ws)"
    using Cons.prems by (intro Cons.IH) simp_all
  ultimately show ?case by simp
qed

lemma concat_fill: "concat (map (\<lambda>nd. [x]) [0..<k]) = replicate k x"
  by (induction k) (simp_all add: replicate_append_same)

lemma border_cell_eq:
  "border_cell w t M m f =
     replicate w f @ (if 0 < w \<and> t < to_int (M - 1) then [m] else [])"
proof (cases w)
  case 0
  then show ?thesis by (simp add: border_cell_def)
next
  case (Suc k)
  have "map (\<lambda>nd. f # (if nd = k \<and> t < to_int (M - 1) then [m] else [])) [0..<k] =
          map (\<lambda>nd. [f]) [0..<k]"
    by (rule map_cong) simp_all
  then have "concat (map (\<lambda>nd. f # (if nd = k \<and> t < to_int (M - 1) then [m] else []))
                      [0..<k]) = replicate k f"
    by (simp only: concat_fill)
  then show ?thesis
    using Suc by (simp add: border_cell_def replicate_append_same)
qed

lemma border_cols:
  assumes "int (sum_list w) < 2 ^ 31" "int (length w) < 2 ^ 31"
  shows "k \<le> length w \<Longrightarrow>
    fold (border_col_step w M m f) [0..<k] (Inr (0, [l])) =
      Inr (int (sum_list (take k w)) - int k,
           l # concat (map (\<lambda>i. replicate (w ! i) f @
                                (if 0 < w ! i \<and>
                                    int (sum_list (take (Suc i) w)) - int (Suc i) < to_int (M - 1)
                                 then [m] else [])) [0..<k]))"
proof (induction k)
  case 0
  then show ?case by simp
next
  case (Suc k)
  then have k: "k < length w" by simp
  have tk: "sum_list (take (Suc k) w) = sum_list (take k w) + w ! k"
    using k by (simp add: take_Suc_conv_app_nth)
  have "sum_list (take (Suc k) w) \<le> sum_list w"
    using sum_list_append [of "take (Suc k) w" "drop (Suc k) w"] by simp
  then have "to_int (int (sum_list (take k w)) - int k + (int (w ! k) - 1)) =
               int (sum_list (take (Suc k) w)) - int (Suc k)"
    using assms k tk by (intro trans [OF to_int_id]) simp_all
  then show ?case
    using Suc k by (simp add: border_col_step_Inr border_cell_eq)
qed

text \<open>
  When no counter overflows, the junction after column \<open>i\<close> is written exactly
  when the column is not empty and the columns after it are fewer than the sum of their
  widths.
\<close>

lemma get_tab_border_glyphs_eq:
  assumes "int (sum_list w) < 2 ^ 31" "int (length w) < 2 ^ 31"
  shows "get_tab_border_glyphs (length w) w l m r f =
     Inr (l # concat (map (\<lambda>i. replicate (w ! i) f @
                                (if 0 < w ! i \<and> length w - Suc i < sum_list (drop (Suc i) w)
                                 then [m] else [])) [0..<length w]) @ [r])"
proof -
  let ?M = "to_int (fold (\<lambda>w acc. to_int (acc + int w)) w 0 - (int (length w) - 1))"
  have "fold (\<lambda>w acc. to_int (acc + int w)) w 0 = int (sum_list w)"
    using width_sum_fold [of 0 w] assms(1) by simp
  moreover have "int (sum_list w) - (int (length w) - 1) < 2 ^ 31"
    using assms(1) by (cases w) simp_all
  moreover have "- (2 ^ 31) \<le> int (sum_list w) - (int (length w) - 1)"
    using assms(2) by simp
  ultimately have M: "?M = int (sum_list w) - (int (length w) - 1)"
    by (simp only: to_int_id)
  have M1: "to_int (?M - 1) = int (sum_list w) - int (length w)"
    using assms by (simp only: M) (intro trans [OF to_int_id], simp_all)
  have cond: "int (sum_list (take (Suc i) w)) - int (Suc i) < to_int (?M - 1) \<longleftrightarrow>
              length w - Suc i < sum_list (drop (Suc i) w)" if "i < length w" for i
  proof -
    have "sum_list w = sum_list (take (Suc i) w) + sum_list (drop (Suc i) w)"
      using sum_list_append [of "take (Suc i) w" "drop (Suc i) w"] by simp
    then show ?thesis using that by (simp only: M1) linarith
  qed
  have "map (\<lambda>i. replicate (w ! i) f @
               (if 0 < w ! i \<and>
                   int (sum_list (take (Suc i) w)) - int (Suc i) < to_int (?M - 1)
                then [m] else [])) [0..<length w] =
        map (\<lambda>i. replicate (w ! i) f @
               (if 0 < w ! i \<and> length w - Suc i < sum_list (drop (Suc i) w)
                then [m] else [])) [0..<length w]"
  proof (rule map_cong [OF refl])
    fix i assume "i \<in> set [0..<length w]"
    then have "i < length w" by simp
    from cond [OF this]
    show "replicate (w ! i) f @
               (if 0 < w ! i \<and>
                   int (sum_list (take (Suc i) w)) - int (Suc i) < to_int (?M - 1)
                then [m] else []) =
          replicate (w ! i) f @
               (if 0 < w ! i \<and> length w - Suc i < sum_list (drop (Suc i) w)
                then [m] else [])"
      by (simp only:)
  qed
  then show ?thesis
    by (simp only: get_tab_border_glyphs_def Let_def border_cols [OF assms le_refl]
        ebind_Inr prod.case append_Cons)
qed

lemma sum_list_wide: "\<forall>x\<in>set xs. 2 \<le> x \<Longrightarrow> 2 * length xs \<le> sum_list xs"
  by (induction xs) auto

lemma junction_glyph_count:
  "k \<le> length w \<Longrightarrow>
   length (concat (map (\<lambda>i. replicate (w ! i) f @ (if Suc i < length w then [m] else []))
                    [0..<k])) =
     sum_list (take k w) + (if k < length w then k else length w - 1)"
proof (induction k)
  case 0
  then show ?case by simp
next
  case (Suc k)
  then have "k < length w" by simp
  then have "sum_list (take (Suc k) w) = sum_list (take k w) + w ! k"
    by (simp add: take_Suc_conv_app_nth)
  with Suc show ?case by auto
qed

text \<open>
  When every width is at least 2 (cells are not empty and the padding is at least 1),
  that is every column but the last: the line is the left glyph, the fills with one
  junction between adjacent columns, and the right glyph.
\<close>

lemma get_tab_border_glyphs_wide:
  assumes wide: "\<forall>x\<in>set w. 2 \<le> x" and small: "int (sum_list w) < 2 ^ 31"
  shows "get_tab_border_glyphs (length w) w l m r f =
           Inr (l # concat (map (\<lambda>i. replicate (w ! i) f @
                                      (if Suc i < length w then [m] else []))
                              [0..<length w]) @ [r])"
    and "length (l # concat (map (\<lambda>i. replicate (w ! i) f @
                                      (if Suc i < length w then [m] else []))
                              [0..<length w]) @ [r]) =
           2 + sum_list w + (length w - 1)"
proof -
  have len: "int (length w) < 2 ^ 31"
    using sum_list_wide [OF wide] small by linarith
  have "map (\<lambda>i. replicate (w ! i) f @
               (if 0 < w ! i \<and> length w - Suc i < sum_list (drop (Suc i) w)
                then [m] else [])) [0..<length w] =
        map (\<lambda>i. replicate (w ! i) f @ (if Suc i < length w then [m] else []))
          [0..<length w]"
  proof (rule map_cong [OF refl])
    fix i assume "i \<in> set [0..<length w]"
    then have i: "i < length w" by simp
    then have pos: "0 < w ! i" using wide nth_mem [OF i] by fastforce
    have "\<forall>x\<in>set (drop (Suc i) w). 2 \<le> x"
      using wide by (meson in_set_dropD)
    from sum_list_wide [OF this]
    have "length w - Suc i < sum_list (drop (Suc i) w) \<longleftrightarrow> Suc i < length w"
      by (cases "Suc i < length w") simp_all
    with pos show "replicate (w ! i) f @
               (if 0 < w ! i \<and> length w - Suc i < sum_list (drop (Suc i) w)
                then [m] else []) =
          replicate (w ! i) f @ (if Suc i < length w then [m] else [])"
      by simp
  qed
  then show "get_tab_border_glyphs (length w) w l m r f =
           Inr (l # concat (map (\<lambda>i. replicate (w ! i) f @
                                      (if Suc i < length w then [m] else []))
                              [0..<length w]) @ [r])"
    by (simp only: get_tab_border_glyphs_eq [OF small len])
  show "length (l # concat (map (\<lambda>i. replicate (w ! i) f @
                                      (if Suc i < length w then [m] else []))
                              [0..<length w]) @ [r]) =
           2 + sum_list w + (length w - 1)"
    using junction_glyph_count [OF le_refl, of w f m] by simp
qed

subsection \<open>Behaviour on particular inputs\<close>

text \<open>
  C1. Empty input with the default configuration (borders on, no header list): the
  output is the bottom border line alone, its two corner glyphs and the reset; no top
  border line is written. With borders off nothing is written.
\<close>

theorem empty_input_bottom_border_only:
  "tabstijl_main default_config [] =
     Inr (left_char_unicode (border_bottom single_border_style)
          @ right_char_unicode (border_bottom single_border_style) @ DEFAULT @ [NEWLINE]) \<and>
   tabstijl_main (default_config\<lparr>use_border := False\<rparr>) [] = Inr []"
  by code_simp

text \<open>
  C2. Empty input with a header list and header exclusion off: the assignment to row 0
  of the empty table is out of range.
\<close>

theorem empty_input_header_out_of_range:
  "tabstijl_main (default_config\<lparr>usrinput_header_data := [''id'', ''name'']\<rparr>) [] =
     Inl OutOfRange"
  by code_simp

text \<open>
  C3. Two columns of width 1 (the input \<open>a b\<close> with padding 0): the border line is
  the left glyph, two fill glyphs and the right glyph, four glyphs with no junction
  between the columns, for every glyph set.
\<close>

theorem border_without_junction:
  "compute_col_width (collect_rows SPACE False (''a b'' @ [NEWLINE])) 0 = Inr [1, 1] \<and>
   get_tab_border_glyphs 2 [1, 1] l m r f = Inr [l, f, f, r]"
proof -
  have "compute_col_width (collect_rows SPACE False (''a b'' @ [NEWLINE])) 0 = Inr [1, 1]"
    by code_simp
  moreover have "get_tab_border_glyphs 2 [1, 1] l m r f = Inr [l, f, f, r]"
    by (simp add: get_tab_border_glyphs_def border_col_step_def border_cell_def
        to_int_def upt_rec)
  ultimately show ?thesis by simp
qed

text \<open>
  C4. Header exclusion on, input \<open>a b\<close> ending without a newline: the last token of
  the first row is stored and becomes row 0 of the table.
\<close>

theorem excluded_first_row_token_kept:
  "collect_rows SPACE True ''a b'' = [[''b'']]"
  by code_simp

text \<open>
  C9. Input \<open>a\<close> and a newline, default configuration with the table colour red: the
  row line ends with the reset, the colour, the divider and the newline, so the colour
  opened for the last divider is still on at the end of the line.
\<close>

theorem table_color_not_reset:
  "tabstijl_main (default_config\<lparr>table_color := RED\<rparr>) (''a'' @ [NEWLINE]) =
     Inr (RED @ left_char_unicode (border_top single_border_style)
            @ concat (replicate 3 (fill_char_unicode (border_top single_border_style)))
            @ right_char_unicode (border_top single_border_style) @ DEFAULT @ [NEWLINE]
          @ RED @ vertical_line single_border_style @ DEFAULT
            @ ''a  '' @ DEFAULT @ RED @ vertical_line single_border_style @ [NEWLINE]
          @ RED @ left_char_unicode (border_separator single_border_style)
            @ concat (replicate 3 (fill_char_unicode (border_separator single_border_style)))
            @ right_char_unicode (border_separator single_border_style) @ DEFAULT @ [NEWLINE]
          @ RED @ left_char_unicode (border_bottom single_border_style)
            @ concat (replicate 3 (fill_char_unicode (border_bottom single_border_style)))
            @ right_char_unicode (border_bottom single_border_style) @ DEFAULT @ [NEWLINE])"
  by code_simp

end
